theory Spec2Isabelle
  imports Main "HOL-Library.Word"
begin

unbundle bit_operations_syntax

section \<open>Bytes, errors and the Python built-ins used by \<open>pyais/messages.py\<close>\<close>

text \<open>
  A Python \<open>bytes\<close> value is a list of 8-bit words. \<open>bytes_of\<close> writes a bytes literal
  \<open>b"..."\<close> from its ASCII text.
\<close>

type_synonym byte = "8 word"
type_synonym bytes = "byte list"
type_synonym bitarray = "bool list"

definition bytes_of :: "string \<Rightarrow> bytes" where
  "bytes_of s = map of_char s"

definition comma :: byte where
  "comma = 0x2C"

definition star :: byte where
  "star = 0x2A"

text \<open>
  Every exception the constructor and its helpers can raise is a value. Python raises
  \<open>ValueError\<close> at three places that the specification tells apart, so each has its own
  constructor:
  \<^item> \<open>ValueError_entries\<close>: line 43, "A NMEA message needs to have exactly 7 comma
    separeted entries" (the specification's framing error);
  \<^item> \<open>ValueError_literal\<close>: \<open>int()\<close> on a literal that is not a number (lines 64, 65, 69);
  \<^item> \<open>ValueError_checksum\<close>: line 73, "Invalid Checksum. Message is invalid!";
  \<^item> \<open>IndexError\<close>: indexing an empty \<open>bytes\<close> or an empty sequence;
  \<^item> \<open>TypeError\<close>: \<open>reduce\<close> of an empty sequence without initial value, and \<open>+=\<close> with \<open>None\<close>;
  \<^item> \<open>UnicodeDecodeError\<close>: \<open>decode('ascii')\<close> of a byte above 127;
  \<^item> \<open>RangeError\<close>: the specification's name for a bit range outside the bit stream.
\<close>

datatype error =
    IndexError
  | TypeError
  | UnicodeDecodeError
  | ValueError_entries
  | ValueError_literal
  | ValueError_checksum
  | RangeError

text \<open>
  Sequencing: the first exception ends the computation, as a raise does; otherwise the
  value goes on to the next step.
\<close>

fun bind_err :: "error + 'a \<Rightarrow> ('a \<Rightarrow> error + 'b) \<Rightarrow> error + 'b" where
  "bind_err (Inl e) f = Inl e"
| "bind_err (Inr x) f = f x"

text \<open>
  \<open>bytes.split(sep)\<close> for a one-byte separator: the fields between the separators, at
  least one field, empty fields kept (\<open>b''.split(b',') == [b'']\<close>). A byte that is not
  the separator joins the first field of what follows; that list is never empty, so the
  first branch of the \<open>case\<close> is not reached.
\<close>

fun split_bytes :: "byte \<Rightarrow> bytes \<Rightarrow> bytes list" where
  "split_bytes sep [] = [[]]"
| "split_bytes sep (x # xs) =
     (if x = sep then [] # split_bytes sep xs
      else (case split_bytes sep xs of [] \<Rightarrow> [[x]] | f # fs \<Rightarrow> (x # f) # fs))"

text \<open>\<open>sep.join(fields)\<close>.\<close>

fun join_bytes :: "byte \<Rightarrow> bytes list \<Rightarrow> bytes" where
  "join_bytes sep [] = []"
| "join_bytes sep [f] = f"
| "join_bytes sep (f # g # fs) = f @ sep # join_bytes sep (g # fs)"

text \<open>
  \<open>bs.decode('ascii')\<close>: the text with the same code points, or \<open>UnicodeDecodeError\<close> when
  a byte is above 127.
\<close>

definition decode_ascii :: "bytes \<Rightarrow> error + string" where
  "decode_ascii bs =
     (if \<forall>b \<in> set bs. b < 0x80 then Inr (map (\<lambda>b. char_of (unat b)) bs)
      else Inl UnicodeDecodeError)"

subsection \<open>\<open>int(literal, base)\<close> on bytes\<close>

text \<open>
  Python's \<open>int\<close> on a \<open>bytes\<close> literal, as CPython's \<open>PyLong_FromString\<close> reads it:
  optional white space, an optional sign, for base 16, 8 or 2 an optional prefix
  \<open>0x\<close>, \<open>0o\<close> or \<open>0b\<close> (which one underscore may follow), then digits of the base with
  single underscores between them, then optional white space up to the end. Anything else
  is \<open>ValueError\<close>. Python integers are unbounded (\<open>int\<close>); the interpreter's configurable
  limit on the number of decimal digits is not modelled.
\<close>

definition is_space :: "byte \<Rightarrow> bool" where
  "is_space b = (b = 0x20 \<or> (0x09 \<le> b \<and> b \<le> 0x0D))"

definition digit_value :: "byte \<Rightarrow> nat" where
  "digit_value b =
     (let n = unat b in
      if 48 \<le> n \<and> n \<le> 57 then n - 48
      else if 97 \<le> n \<and> n \<le> 122 then n - 87
      else if 65 \<le> n \<and> n \<le> 90 then n - 55
      else 37)"

text \<open>
  The digit loop: \<open>prev\<close> says that the byte before was an underscore, \<open>acc\<close> is the value
  read so far and \<open>n\<close> the number of digits. It stops at the first byte that is neither a
  digit of the base nor an underscore and returns the rest; two underscores in a row and a
  trailing underscore are errors (\<open>None\<close>).
\<close>

fun scan_digits :: "nat \<Rightarrow> bytes \<Rightarrow> bool \<Rightarrow> nat \<Rightarrow> nat \<Rightarrow> (nat \<times> nat \<times> bytes) option" where
  "scan_digits base [] prev acc n = (if prev then None else Some (acc, n, []))"
| "scan_digits base (c # cs) prev acc n =
     (if c = 0x5F then (if prev then None else scan_digits base cs True acc n)
      else if digit_value c < base
        then scan_digits base cs False (acc * base + digit_value c) (Suc n)
      else if prev then None else Some (acc, n, c # cs))"

definition strip_sign :: "bytes \<Rightarrow> bool \<times> bytes" where
  "strip_sign s =
     (case s of
        [] \<Rightarrow> (False, s)
      | c # cs \<Rightarrow> if c = 0x2B then (False, cs) else if c = 0x2D then (True, cs) else (False, s))"

definition strip_prefix :: "nat \<Rightarrow> bytes \<Rightarrow> bytes" where
  "strip_prefix base s =
     (case s of
        z # x # rest \<Rightarrow>
          if z = 0x30 \<and>
             ((base = 16 \<and> (x = 0x78 \<or> x = 0x58)) \<or>
              (base = 8 \<and> (x = 0x6F \<or> x = 0x4F)) \<or>
              (base = 2 \<and> (x = 0x62 \<or> x = 0x42)))
          then (case rest of u # rest' \<Rightarrow> if u = 0x5F then rest' else rest | [] \<Rightarrow> rest)
          else s
      | _ \<Rightarrow> s)"

definition py_int :: "nat \<Rightarrow> bytes \<Rightarrow> error + int" where
  "py_int base s =
     (let (neg, s2) = strip_sign (dropWhile is_space s);
          s3 = strip_prefix base s2
      in case s3 of
           [] \<Rightarrow> Inl ValueError_literal
         | c # _ \<Rightarrow>
             if c = 0x5F then Inl ValueError_literal
             else (case scan_digits base s3 False 0 0 of
                     None \<Rightarrow> Inl ValueError_literal
                   | Some (v, n, rest) \<Rightarrow>
                       if n = 0 \<or> dropWhile is_space rest \<noteq> [] then Inl ValueError_literal
                       else Inr (if neg then - int v else int v)))"

section \<open>The collaborators of \<open>pyais.util\<close>\<close>

text \<open>
  \<open>decode_into_bit_array\<close> and \<open>get_int\<close> are imported from \<open>pyais.util\<close>. The constructor
  below takes them as parameters, so that what is proved about it holds for every
  implementation of the two; the definitions here give the instance used on concrete
  sentences.
\<close>

type_synonym unarmorer = "bytes \<Rightarrow> error + bitarray"
type_synonym bit_reader = "bitarray \<Rightarrow> int \<Rightarrow> int \<Rightarrow> error + int"

text \<open>
  Modelled from the spec: the six bits of one payload byte in
  \<open>pyais.util.decode_into_bit_array\<close>, which is not among the sources (section 4.3,
  SixBitUnarmorer). For a byte \<open>b\<close>: let \<open>v = b - 0x30\<close>; if \<open>v > 40\<close> then \<open>v -= 8\<close>;
  emit the low 6 bits of \<open>v\<close>, most significant bit first.
\<close>

definition six_bits :: "byte \<Rightarrow> bitarray" where
  "six_bits b =
     (let v = uint b - 0x30; w = (if v > 40 then v - 8 else v)
      in [bit w 5, bit w 4, bit w 3, bit w 2, bit w 1, bit w 0])"

text \<open>
  Modelled from the spec: \<open>pyais.util.decode_into_bit_array\<close>, which is not among the
  sources (section 4.3, SixBitUnarmorer): the six bits of each byte, appended in payload
  order.
\<close>

definition decode_into_bit_array :: unarmorer where
  "decode_into_bit_array payload = Inr (concat (map six_bits payload))"

text \<open>
  Modelled from the spec: the unsigned value of a bit field in \<open>pyais.util.get_int\<close>, which
  is not among the sources (section 4.4, BitFieldReader): big-endian bit order, the first
  bit is the most significant.
\<close>

definition bits_value :: "bitarray \<Rightarrow> int" where
  "bits_value bs = foldl (\<lambda>acc b. 2 * acc + (if b then 1 else 0)) 0 bs"

text \<open>
  Modelled from the spec: \<open>pyais.util.get_int\<close>, which is not among the sources (section
  4.4, BitFieldReader, \<open>getUint\<close>). Bit \<open>start\<close> is the most significant bit of the field;
  a request beyond the length of the stream fails with RangeError.
\<close>

definition get_int :: bit_reader where
  "get_int bs start len =
     (if start < 0 \<or> len < 0 \<or> start + len > int (length bs) then Inl RangeError
      else Inr (bits_value (take (nat len) (drop (nat start) bs))))"

section \<open>\<open>NMEAMessage\<close>\<close>

text \<open>
  The slots of the class. The constructor first sets every slot to \<open>None\<close> and then stores
  \<open>raw\<close>, so \<open>raw\<close> is always a \<open>bytes\<close> value and every other slot is optional.
\<close>

record NMEAMessage =
  ais_id :: "int option"
  raw :: bytes
  talker :: "string option"
  msg_type :: "string option"
  count :: "int option"
  index :: "int option"
  seq_id :: "bytes option"
  channel :: "bytes option"
  data :: "bytes option"
  checksum :: "int option"
  bit_array :: "bitarray option"

text \<open>The object after lines 30 and 33: all slots \<open>None\<close>, \<open>raw\<close> stored.\<close>

definition blank :: "bytes \<Rightarrow> NMEAMessage" where
  "blank r =
     \<lparr>ais_id = None, raw = r, talker = None, msg_type = None, count = None, index = None,
      seq_id = None, channel = None, data = None, checksum = None, bit_array = None\<rparr>"

text \<open>
  \<open>compute_checksum\<close> (lines 123 to 131): \<open>msg[1:].split(b'*', 1)[0]\<close> is what follows the
  first byte up to the first \<open>*\<close> (all of it when there is none); \<open>reduce(xor, msg)\<close> folds
  it from its first byte and raises \<open>TypeError\<close> when it is empty. The result is a Python
  integer between 0 and 255.
\<close>

definition compute_checksum :: "bytes \<Rightarrow> error + int" where
  "compute_checksum msg =
     (case takeWhile (\<lambda>b. b \<noteq> star) (drop 1 msg) of
        [] \<Rightarrow> Inl TypeError
      | b # bs \<Rightarrow> Inr (uint (foldl (XOR) b bs)))"

text \<open>\<open>is_valid\<close> (lines 133 to 135): \<open>self.checksum == self.compute_checksum(self.raw)\<close>.\<close>

definition is_valid :: "NMEAMessage \<Rightarrow> error + bool" where
  "is_valid self = bind_err (compute_checksum (raw self)) (\<lambda>c. Inr (checksum self = Some c))"

text \<open>
  Lines 46 to 69: the seven entries are unpacked and stored. \<open>head[1:3]\<close> and \<open>head[3:]\<close>
  are decoded as ASCII, \<open>count\<close> and \<open>index\<close> are read in base 10, and the checksum is
  \<open>int(checksum[2:], 16)\<close>: the seventh entry without its first two bytes, read in base
  16. The first failure ends the construction.
\<close>

definition unpack :: "NMEAMessage \<Rightarrow> bytes list \<Rightarrow> error + NMEAMessage" where
  "unpack self values =
     bind_err (decode_ascii (take 2 (drop 1 (values ! 0)))) (\<lambda>t.
     bind_err (decode_ascii (drop 3 (values ! 0))) (\<lambda>m.
     bind_err (py_int 10 (values ! 1)) (\<lambda>c.
     bind_err (py_int 10 (values ! 2)) (\<lambda>i.
     bind_err (py_int 16 (drop 2 (values ! 6))) (\<lambda>k.
       Inr (self\<lparr>talker := Some t, msg_type := Some m, count := Some c, index := Some i,
                 seq_id := Some (values ! 3), channel := Some (values ! 4),
                 data := Some (values ! 5), checksum := Some k\<rparr>))))))"

text \<open>
  Lines 71 to 77: the checksum is verified, then the payload is decoded into bits and
  the message type read from the first six bits.
\<close>

definition finish :: "unarmorer \<Rightarrow> bit_reader \<Rightarrow> NMEAMessage \<Rightarrow> error + NMEAMessage" where
  "finish dec gint self =
     bind_err (is_valid self) (\<lambda>ok.
       if \<not> ok then Inl ValueError_checksum
       else bind_err (case data self of None \<Rightarrow> Inl TypeError | Some payload \<Rightarrow> dec payload) (\<lambda>bits.
            bind_err (gint bits 0 6) (\<lambda>t.
              Inr (self\<lparr>bit_array := Some bits, ais_id := Some t\<rparr>))))"

text \<open>
  \<open>NMEAMessage.__init__\<close> (lines 28 to 77). \<open>values[0][0]\<close> raises \<open>IndexError\<close> when
  the first entry is empty; a first byte other than \<open>0x21\<close> returns the object with only
  \<open>raw\<close> set; then exactly seven entries are required.
\<close>

definition NMEAMessage_init :: "unarmorer \<Rightarrow> bit_reader \<Rightarrow> bytes \<Rightarrow> error + NMEAMessage" where
  "NMEAMessage_init dec gint r =
     (let self = blank r; values = split_bytes comma r
      in case values ! 0 of
           [] \<Rightarrow> Inl IndexError
         | b0 # _ \<Rightarrow>
             if b0 \<noteq> 0x21 then Inr self
             else if length values \<noteq> 7 then Inl ValueError_entries
             else bind_err (unpack self values) (finish dec gint))"

text \<open>
  \<open>assemble_from_iterable\<close> (lines 102 to 121) reads and then overwrites objects that its
  caller still holds, so objects live in a store: a reference is a number and the store
  gives the object of every reference. The loop appends \<open>msg.raw\<close>, \<open>msg.data\<close> and
  \<open>msg.bit_array\<close> of each message in turn; \<open>+=\<close> with a slot that is \<open>None\<close> raises
  \<open>TypeError\<close>.
\<close>

type_synonym ref = nat
type_synonym store = "ref \<Rightarrow> NMEAMessage"

fun assemble_loop ::
  "store \<Rightarrow> ref list \<Rightarrow> bytes \<Rightarrow> bytes \<Rightarrow> bitarray \<Rightarrow> error + bytes \<times> bytes \<times> bitarray" where
  "assemble_loop h [] r d b = Inr (r, d, b)"
| "assemble_loop h (msg # msgs) r d b =
     (case data (h msg) of
        None \<Rightarrow> Inl TypeError
      | Some md \<Rightarrow>
          (case bit_array (h msg) of
             None \<Rightarrow> Inl TypeError
           | Some mb \<Rightarrow> assemble_loop h msgs (r @ raw (h msg)) (d @ md) (b @ mb)))"

text \<open>
  After the loop the three results are stored into \<open>messages[0]\<close>, which is returned:
  the result is the reference of the first message and the store is changed at it.
  \<open>messages[0]\<close> of an empty sequence raises \<open>IndexError\<close>.
\<close>

definition assemble_from_iterable :: "store \<Rightarrow> ref list \<Rightarrow> error + store \<times> ref" where
  "assemble_from_iterable h messages =
     bind_err (assemble_loop h messages [] [] []) (\<lambda>(r, d, b).
       case messages of
         [] \<Rightarrow> Inl IndexError
       | m0 # _ \<Rightarrow>
           Inr (h(m0 := (h m0)\<lparr>raw := r, data := Some d, bit_array := Some b\<rparr>), m0))"

text \<open>The store in which the references \<open>0\<close>, \<open>1\<close>, ... are the objects of a list.\<close>

definition store_of :: "NMEAMessage list \<Rightarrow> store" where
  "store_of objs = (\<lambda>a. if a < length objs then objs ! a else blank [])"

section \<open>\<open>AISMessage\<close>\<close>

text \<open>
  The decoded message: \<open>content\<close> is a dictionary from field names to Python values, or
  \<open>None\<close>. A Python value of the dictionary is a \<open>'v option\<close>, \<open>None\<close> being Python's \<open>None\<close>.
  \<open>__getitem__\<close> (lines 164 to 167) has no path that raises for a field name, so it is a
  plain function: \<open>None\<close> when there is no content, \<open>self.content.get(item, None)\<close> otherwise.
\<close>

record 'v AISMessage =
  nmea :: NMEAMessage
  ais_type :: int
  content :: "(string \<rightharpoonup> 'v option) option"

definition getitem :: "'v AISMessage \<Rightarrow> string \<Rightarrow> 'v option" where
  "getitem self item =
     (case content self of
        None \<Rightarrow> None
      | Some d \<Rightarrow> (case d item of None \<Rightarrow> None | Some v \<Rightarrow> v))"

section \<open>What the specification says, for comparison\<close>

text \<open>
  The XOR-fold of a byte sequence, as the specification words the checksum: every byte
  folded with XOR, from 0.
\<close>

definition xor_fold :: "bytes \<Rightarrow> byte" where
  "xor_fold bs = fold (XOR) bs 0"



section \<open>An example: the two fragments of one message\<close>

text \<open>
  Two sentences that carry one message of type 5, and the store that holds the two
  frames the constructor makes of them, at the references 0 and 1.
\<close>

definition fragment1 :: bytes where
  "fragment1 = bytes_of ''!AIVDM,2,1,3,B,55P5TL01VIaAL@7WKO@mBplU@<PDhh000000001S;AJ::4A80?4i@E53,0*3E''"

definition fragment2 :: bytes where
  "fragment2 = bytes_of ''!AIVDM,2,2,3,B,1@0000000000000,2*55''"

definition two_fragments :: store where
  "two_fragments =
     store_of [projr (NMEAMessage_init decode_into_bit_array get_int fragment1),
               projr (NMEAMessage_init decode_into_bit_array get_int fragment2)]"


section \<open>Evaluation on concrete sentences\<close>

lemmas eval_defs =
  NMEAMessage_init_def unpack_def finish_def is_valid_def blank_def bytes_of_def
  comma_def star_def compute_checksum_def decode_ascii_def char_of_def py_int_def
  strip_sign_def strip_prefix_def is_space_def digit_value_def
  decode_into_bit_array_def six_bits_def get_int_def bits_value_def bit_Suc bit_Suc_0_iff

section \<open>Splitting into entries\<close>

lemma split_bytes_nonempty: "split_bytes sep xs \<noteq> []"
  by (induction xs) (auto split: list.splits)

lemma split_bytes_first: "split_bytes sep xs ! 0 = takeWhile (\<lambda>b. b \<noteq> sep) xs"
proof (induction xs)
  case Nil
  show ?case by simp
next
  case (Cons x xs)
  show ?case using Cons split_bytes_nonempty [of sep xs]
    by (cases "split_bytes sep xs") auto
qed

lemma first_entry_empty_iff: "split_bytes comma r ! 0 = [] \<longleftrightarrow> r = [] \<or> hd r = comma"
  unfolding split_bytes_first by (cases r) auto

lemma first_entry_sentinel:
  assumes "r \<noteq> []" and "hd r = 0x21"
  shows "\<exists>rest. split_bytes comma r ! 0 = 0x21 # rest"
proof -
  from assms obtain xs where r: "r = 0x21 # xs" by (cases r) auto
  have "(0x21 :: byte) \<noteq> comma" by (simp add: comma_def)
  then show ?thesis unfolding split_bytes_first r by simp
qed

section \<open>The first checks of the constructor\<close>

lemma init_first_entry_empty:
  assumes "split_bytes comma r ! 0 = []"
  shows "NMEAMessage_init dec gint r = Inl IndexError"
  using assms by (simp add: NMEAMessage_init_def)

text \<open>
  When the first entry is not empty and does not start with \<open>!\<close>, the constructor returns
  the object with only \<open>raw\<close> set: no entry is parsed and no checksum computed.
\<close>

lemma init_ignored:
  assumes "split_bytes comma r ! 0 = b0 # rest" and "b0 \<noteq> 0x21"
  shows "NMEAMessage_init dec gint r = Inr (blank r)"
  using assms by (simp add: NMEAMessage_init_def)

text \<open>
  C7, at the input \<open>b","\<close>. The input is not empty and its first byte is not \<open>!\<close>, yet
  the constructor does not return the object with only \<open>raw\<close> set: the first entry is
  empty and \<open>values[0][0]\<close> raises \<open>IndexError\<close>.
\<close>

theorem comma_first_raises_IndexError:
  "bytes_of '','' \<noteq> [] \<and> hd (bytes_of '','') \<noteq> 0x21 \<and>
   NMEAMessage_init decode_into_bit_array get_int (bytes_of '','') = Inl IndexError"
  by (simp add: eval_defs)

text \<open>
  C8: an input whose first byte is \<open>!\<close> and which does not split on \<open>,\<close> into exactly
  7 entries fails with the error of line 43, whatever the entries are.
\<close>

theorem seven_entries_required:
  assumes "r \<noteq> []" and "hd r = 0x21" and "length (split_bytes comma r) \<noteq> 7"
  shows "NMEAMessage_init dec gint r = Inl ValueError_entries"
proof -
  from first_entry_sentinel [OF assms(1,2)] obtain rest
    where "split_bytes comma r ! 0 = 0x21 # rest" ..
  with assms(3) show ?thesis by (simp add: NMEAMessage_init_def)
qed

theorem seven_entries_required_witness:
  "bytes_of ''!AIVDM,1,1,,A,15'' \<noteq> [] \<and> hd (bytes_of ''!AIVDM,1,1,,A,15'') = 0x21 \<and>
   length (split_bytes comma (bytes_of ''!AIVDM,1,1,,A,15'')) = 6 \<and>
   NMEAMessage_init decode_into_bit_array get_int (bytes_of ''!AIVDM,1,1,,A,15'')
     = Inl ValueError_entries"
proof -
  have h1: "bytes_of ''!AIVDM,1,1,,A,15'' \<noteq> []"
    by (simp add: bytes_of_def)
  have h2: "hd (bytes_of ''!AIVDM,1,1,,A,15'') = 0x21"
    by (simp add: bytes_of_def)
  have h3: "length (split_bytes comma (bytes_of ''!AIVDM,1,1,,A,15'')) = 6"
    by (simp add: bytes_of_def comma_def)
  then have h4: "length (split_bytes comma (bytes_of ''!AIVDM,1,1,,A,15'')) \<noteq> 7"
    by simp
  show ?thesis
    using seven_entries_required [OF h1 h2 h4, of decode_into_bit_array get_int] h1 h2 h3
    by simp
qed

text \<open>
  C10: the constructor is not total. For the empty input, for an input that starts with
  \<open>,\<close>, and so for every input whose first entry is empty, it raises \<open>IndexError\<close>:
  neither the object with only \<open>raw\<close> set nor one of the two \<open>ValueError\<close>s of the class.
\<close>

theorem empty_first_entry_raises_IndexError:
  "NMEAMessage_init dec gint [] = Inl IndexError \<and>
   NMEAMessage_init dec gint (comma # rest) = Inl IndexError \<and>
   (split_bytes comma r ! 0 = [] \<longrightarrow> NMEAMessage_init dec gint r = Inl IndexError)"
  by (simp add: init_first_entry_empty)

theorem empty_first_entry_raises_IndexError_witness:
  "split_bytes comma (bytes_of '',1,2'') ! 0 = [] \<and>
   NMEAMessage_init decode_into_bit_array get_int (bytes_of '',1,2'') = Inl IndexError"
proof -
  have h: "split_bytes comma (bytes_of '',1,2'') ! 0 = []"
    by (simp add: bytes_of_def comma_def)
  show ?thesis
    using empty_first_entry_raises_IndexError
      [of decode_into_bit_array get_int "[]" "bytes_of '',1,2''"] h
    by simp
qed

section \<open>The checksum\<close>

lemma foldl_xor_fold: "foldl (XOR) (b :: byte) bs = xor_fold (b # bs)"
proof -
  have "foldl (XOR) a bs = fold (XOR) bs a" for a :: byte
    by (induction bs arbitrary: a) (simp_all add: xor.commute)
  then show ?thesis by (simp add: xor_fold_def)
qed

text \<open>
  What \<open>compute_checksum\<close> returns: the XOR-fold of the bytes after the first byte and
  before the first \<open>*\<close>, when there is at least one such byte.
\<close>

lemma compute_checksum_xor_fold:
  "compute_checksum msg =
     (if takeWhile (\<lambda>b. b \<noteq> star) (drop 1 msg) = [] then Inl TypeError
      else Inr (uint (xor_fold (takeWhile (\<lambda>b. b \<noteq> star) (drop 1 msg)))))"
  by (simp add: compute_checksum_def foldl_xor_fold split: list.splits)

text \<open>
  C4, at the input \<open>b"!*00"\<close>. No byte lies between the sentinel and the \<open>*\<close>; the XOR-fold
  of no bytes is 0, but \<open>reduce(xor, msg)\<close> has no initial value and raises \<open>TypeError\<close>.
  The constructor reaches this on a sentence whose second byte is \<open>*\<close>.
\<close>

theorem compute_checksum_empty_raises_TypeError:
  "compute_checksum (bytes_of ''!*00'') = Inl TypeError \<and>
   xor_fold (takeWhile (\<lambda>b. b \<noteq> star) (drop 1 (bytes_of ''!*00''))) = 0 \<and>
   NMEAMessage_init decode_into_bit_array get_int (bytes_of ''!*,1,1,,A,15,0*00'')
     = Inl TypeError"
  by (simp add: eval_defs xor_fold_def)

section \<open>Field lookup\<close>

text \<open>
  C9: the lookup returns the mapped value when the name is present, and \<open>None\<close> when the
  name is missing or when there is no content. \<open>getitem\<close> is a total function without an
  error result: no lookup raises.
\<close>

theorem getitem_lookup:
  "(content self = Some d \<and> d item = Some v \<longrightarrow> getitem self item = v) \<and>
   (content self = Some d \<and> d item = None \<longrightarrow> getitem self item = None) \<and>
   (content self = None \<longrightarrow> getitem self item = None)"
  by (simp add: getitem_def)

theorem getitem_lookup_witness:
  "getitem \<lparr>nmea = blank [], ais_type = 1, content = Some [''type'' \<mapsto> Some (1::int)]\<rparr> ''type''
     = Some 1 \<and>
   getitem \<lparr>nmea = blank [], ais_type = 1, content = Some [''type'' \<mapsto> Some (1::int)]\<rparr> ''mmsi''
     = None \<and>
   getitem \<lparr>nmea = blank [], ais_type = 1, content = (None :: (string \<rightharpoonup> int option) option)\<rparr>
     ''type'' = None"
  using
    getitem_lookup [of "\<lparr>nmea = blank [], ais_type = 1, content = Some [''type'' \<mapsto> Some (1::int)]\<rparr>"
      "[''type'' \<mapsto> Some (1::int)]" "''type''" "Some 1"]
    getitem_lookup [of "\<lparr>nmea = blank [], ais_type = 1, content = Some [''type'' \<mapsto> Some (1::int)]\<rparr>"
      "[''type'' \<mapsto> Some (1::int)]" "''mmsi''"]
    getitem_lookup [of "\<lparr>nmea = blank [], ais_type = 1,
      content = (None :: (string \<rightharpoonup> int option) option)\<rparr>" _ "''type''"]
  by simp

section \<open>The entries and the checksum check\<close>

lemma bind_err_Inr:
  assumes "bind_err m g = Inr y"
  obtains x where "m = Inr x" and "g x = Inr y"
  using assms by (cases m) auto

lemma unpack_Inr:
  assumes "unpack self values = Inr s"
  obtains t m c i k where
    "decode_ascii (take 2 (drop 1 (values ! 0))) = Inr t"
    "decode_ascii (drop 3 (values ! 0)) = Inr m"
    "py_int 10 (values ! 1) = Inr c"
    "py_int 10 (values ! 2) = Inr i"
    "py_int 16 (drop 2 (values ! 6)) = Inr k"
    "s = self\<lparr>talker := Some t, msg_type := Some m, count := Some c, index := Some i,
              seq_id := Some (values ! 3), channel := Some (values ! 4),
              data := Some (values ! 5), checksum := Some k\<rparr>"
proof -
  from assms [unfolded unpack_def] obtain t where
    t: "decode_ascii (take 2 (drop 1 (values ! 0))) = Inr t" and
    r1: "bind_err (decode_ascii (drop 3 (values ! 0))) (\<lambda>m.
     bind_err (py_int 10 (values ! 1)) (\<lambda>c.
     bind_err (py_int 10 (values ! 2)) (\<lambda>i.
     bind_err (py_int 16 (drop 2 (values ! 6))) (\<lambda>k.
       Inr (self\<lparr>talker := Some t, msg_type := Some m, count := Some c, index := Some i,
                 seq_id := Some (values ! 3), channel := Some (values ! 4),
                 data := Some (values ! 5), checksum := Some k\<rparr>))))) = Inr s"
    by (rule bind_err_Inr)
  from r1 obtain m where
    m: "decode_ascii (drop 3 (values ! 0)) = Inr m" and
    r2: "bind_err (py_int 10 (values ! 1)) (\<lambda>c.
     bind_err (py_int 10 (values ! 2)) (\<lambda>i.
     bind_err (py_int 16 (drop 2 (values ! 6))) (\<lambda>k.
       Inr (self\<lparr>talker := Some t, msg_type := Some m, count := Some c, index := Some i,
                 seq_id := Some (values ! 3), channel := Some (values ! 4),
                 data := Some (values ! 5), checksum := Some k\<rparr>)))) = Inr s"
    by (rule bind_err_Inr)
  from r2 obtain c where
    c: "py_int 10 (values ! 1) = Inr c" and
    r3: "bind_err (py_int 10 (values ! 2)) (\<lambda>i.
     bind_err (py_int 16 (drop 2 (values ! 6))) (\<lambda>k.
       Inr (self\<lparr>talker := Some t, msg_type := Some m, count := Some c, index := Some i,
                 seq_id := Some (values ! 3), channel := Some (values ! 4),
                 data := Some (values ! 5), checksum := Some k\<rparr>))) = Inr s"
    by (rule bind_err_Inr)
  from r3 obtain i where
    i: "py_int 10 (values ! 2) = Inr i" and
    r4: "bind_err (py_int 16 (drop 2 (values ! 6))) (\<lambda>k.
       Inr (self\<lparr>talker := Some t, msg_type := Some m, count := Some c, index := Some i,
                 seq_id := Some (values ! 3), channel := Some (values ! 4),
                 data := Some (values ! 5), checksum := Some k\<rparr>)) = Inr s"
    by (rule bind_err_Inr)
  from r4 obtain k where
    k: "py_int 16 (drop 2 (values ! 6)) = Inr k" and
    s: "Inr (self\<lparr>talker := Some t, msg_type := Some m, count := Some c, index := Some i,
                 seq_id := Some (values ! 3), channel := Some (values ! 4),
                 data := Some (values ! 5), checksum := Some k\<rparr>) = (Inr s :: error + NMEAMessage)"
    by (rule bind_err_Inr)
  from s have "s = self\<lparr>talker := Some t, msg_type := Some m, count := Some c, index := Some i,
                 seq_id := Some (values ! 3), channel := Some (values ! 4),
                 data := Some (values ! 5), checksum := Some k\<rparr>" by simp
  with t m c i k show ?thesis by (rule that)
qed

lemma finish_Inr:
  assumes "finish dec gint self = Inr f"
  obtains c payload bits t where
    "compute_checksum (raw self) = Inr c" "checksum self = Some c"
    "data self = Some payload" "dec payload = Inr bits" "gint bits 0 6 = Inr t"
    "f = self\<lparr>bit_array := Some bits, ais_id := Some t\<rparr>"
proof -
  from assms [unfolded finish_def] obtain ok where
    ok: "is_valid self = Inr ok" and
    r1: "(if \<not> ok then Inl ValueError_checksum
       else bind_err (case data self of None \<Rightarrow> Inl TypeError | Some payload \<Rightarrow> dec payload) (\<lambda>bits.
            bind_err (gint bits 0 6) (\<lambda>t.
              Inr (self\<lparr>bit_array := Some bits, ais_id := Some t\<rparr>)))) = Inr f"
    by (rule bind_err_Inr)
  from r1 have ok_True: ok by (cases ok) auto
  from ok [unfolded is_valid_def] obtain c where
    c: "compute_checksum (raw self) = Inr c" and "Inr (checksum self = Some c) = (Inr ok :: error + bool)"
    by (rule bind_err_Inr)
  with ok_True have k: "checksum self = Some c" by simp
  from r1 ok_True obtain bits where
    b: "(case data self of None \<Rightarrow> Inl TypeError | Some payload \<Rightarrow> dec payload) = Inr bits" and
    r2: "bind_err (gint bits 0 6) (\<lambda>t.
              Inr (self\<lparr>bit_array := Some bits, ais_id := Some t\<rparr>)) = Inr f"
    by (auto elim: bind_err_Inr)
  from b obtain payload where p: "data self = Some payload" "dec payload = Inr bits"
    by (cases "data self") auto
  from r2 obtain t where t: "gint bits 0 6 = Inr t"
    and "Inr (self\<lparr>bit_array := Some bits, ais_id := Some t\<rparr>) = (Inr f :: error + NMEAMessage)"
    by (rule bind_err_Inr)
  then have "f = self\<lparr>bit_array := Some bits, ais_id := Some t\<rparr>" by simp
  with c k p t show ?thesis by (rule that)
qed

lemma init_frame:
  assumes "NMEAMessage_init dec gint r = Inr f" and "data f \<noteq> None"
  obtains rest self where
    "split_bytes comma r ! 0 = 0x21 # rest"
    "length (split_bytes comma r) = 7"
    "unpack (blank r) (split_bytes comma r) = Inr self"
    "finish dec gint self = Inr f"
proof (cases "split_bytes comma r ! 0")
  case Nil
  with assms(1) show ?thesis by (simp add: NMEAMessage_init_def)
next
  case (Cons b0 rest)
  show ?thesis
  proof (cases "b0 = 0x21")
    case False
    with Cons assms(1) have "f = blank r" by (simp add: NMEAMessage_init_def)
    with assms(2) show ?thesis by (simp add: blank_def)
  next
    case True
    with Cons assms(1) have len: "length (split_bytes comma r) = 7"
      by (simp add: NMEAMessage_init_def Let_def split: if_splits)
    with True Cons assms(1)
    have "bind_err (unpack (blank r) (split_bytes comma r)) (finish dec gint) = Inr f"
      by (simp add: NMEAMessage_init_def)
    then obtain self where "unpack (blank r) (split_bytes comma r) = Inr self"
      and "finish dec gint self = Inr f"
      by (rule bind_err_Inr)
    with True Cons len show ?thesis by (auto intro: that)
  qed
qed

lemma init_sentinel_seven:
  assumes "split_bytes comma r ! 0 = 0x21 # rest" and "length (split_bytes comma r) = 7"
  shows "NMEAMessage_init dec gint r
           = bind_err (unpack (blank r) (split_bytes comma r)) (finish dec gint)"
  using assms by (simp add: NMEAMessage_init_def)



section \<open>The declared checksum\<close>






section \<open>Changing one byte of the payload\<close>

lemma split_bytes_no_sep: "f \<in> set (split_bytes sep xs) \<Longrightarrow> sep \<notin> set f"
proof (induction xs arbitrary: f)
  case Nil
  then show ?case by simp
next
  case (Cons x xs)
  show ?case
  proof (cases "x = sep")
    case True
    with Cons show ?thesis by auto
  next
    case False
    from split_bytes_nonempty [of sep xs] obtain g gs where g: "split_bytes sep xs = g # gs"
      by (cases "split_bytes sep xs") auto
    with False Cons.prems have "f = x # g \<or> f \<in> set gs" by simp
    with False g Cons.IH [of g] Cons.IH [of f] show ?thesis by auto
  qed
qed

lemma split_bytes_plain: "sep \<notin> set f \<Longrightarrow> split_bytes sep f = [f]"
  by (induction f) auto

lemma split_bytes_append:
  "sep \<notin> set f \<Longrightarrow> split_bytes sep (f @ sep # xs) = f # split_bytes sep xs"
  by (induction f) auto

lemma split_join:
  assumes "fs \<noteq> []" and "\<forall>f \<in> set fs. sep \<notin> set f"
  shows "split_bytes sep (join_bytes sep fs) = fs"
  using assms
proof (induction sep fs rule: join_bytes.induct)
  case (1 sep)
  then show ?case by simp
next
  case (2 sep f)
  then show ?case by (simp add: split_bytes_plain)
next
  case (3 sep f g fs)
  then show ?case by (simp add: split_bytes_append)
qed

lemma join_split: "join_bytes sep (split_bytes sep xs) = xs"
proof (induction xs)
  case Nil
  show ?case by simp
next
  case (Cons x xs)
  from split_bytes_nonempty [of sep xs] obtain g gs where g: "split_bytes sep xs = g # gs"
    by (cases "split_bytes sep xs") auto
  with Cons show ?case by (cases gs) auto
qed

lemma fold_xor_start: "fold (XOR) bs (a :: byte) = a XOR xor_fold bs"
  unfolding xor_fold_def
proof (induction bs arbitrary: a)
  case Nil
  show ?case by simp
next
  case (Cons x xs)
  have "fold (XOR) (x # xs) a = (x XOR a) XOR fold (XOR) xs 0"
    using Cons [of "x XOR a"] by simp
  also have "\<dots> = a XOR (x XOR fold (XOR) xs 0)"
    by (simp add: xor.assoc xor.left_commute xor.commute)
  also have "x XOR fold (XOR) xs 0 = fold (XOR) (x # xs) 0"
    using Cons [of x] by simp
  finally show ?case .
qed

lemma xor_fold_Cons: "xor_fold (x # xs) = x XOR xor_fold xs"
  using fold_xor_start [of xs x] by (simp add: xor_fold_def)

lemma xor_fold_append: "xor_fold (xs @ ys) = xor_fold xs XOR xor_fold ys"
  by (induction xs) (simp_all add: xor_fold_Cons xor.assoc, simp add: xor_fold_def)

lemma xor_fold_update:
  "i < length d \<Longrightarrow> xor_fold (d[i := b]) = xor_fold d XOR (d ! i) XOR b"
proof (induction d arbitrary: i)
  case Nil
  then show ?case by simp
next
  case (Cons x xs)
  show ?case
  proof (cases i)
    case 0
    show ?thesis
      by (simp add: 0 xor_fold_Cons xor.assoc xor.left_commute xor.commute)
  next
    case (Suc j)
    with Cons show ?thesis
      by (simp add: xor_fold_Cons xor.assoc xor.left_commute xor.commute)
  qed
qed

lemma xor_cancel: "a XOR c = (a :: byte) \<Longrightarrow> c = 0"
proof -
  assume e: "a XOR c = a"
  have "c = (a XOR a) XOR c" by simp
  also have "\<dots> = a XOR (a XOR c)" by (simp only: xor.assoc)
  also have "\<dots> = 0" by (simp add: e)
  finally show ?thesis .
qed

lemma xor_fold_flip_differs:
  assumes "i < length d" and "b \<noteq> d ! i"
  shows "xor_fold (pre @ d[i := b] @ post) \<noteq> xor_fold (pre @ d @ post)"
proof
  assume e: "xor_fold (pre @ d[i := b] @ post) = xor_fold (pre @ d @ post)"
  have "xor_fold (pre @ d[i := b] @ post) = xor_fold (pre @ d @ post) XOR ((d ! i) XOR b)"
    by (simp add: xor_fold_append xor_fold_update assms(1) xor.assoc xor.left_commute xor.commute)
  with e have "xor_fold (pre @ d @ post) XOR ((d ! i) XOR b) = xor_fold (pre @ d @ post)"
    by simp
  then have z: "(d ! i) XOR b = 0" by (rule xor_cancel)
  have "d ! i = (d ! i) XOR (b XOR b)" by simp
  also have "\<dots> = ((d ! i) XOR b) XOR b" by (simp only: xor.assoc)
  also have "\<dots> = b" by (simp add: z)
  finally show False using assms(2) by simp
qed


lemma seven_entries:
  assumes "length (values :: bytes list) = 7"
  obtains v0 v1 v2 v3 v4 v5 v6 where "values = [v0, v1, v2, v3, v4, v5, v6]"
proof -
  from assms have "\<exists>v0 v1 v2 v3 v4 v5 v6. values = [v0, v1, v2, v3, v4, v5, v6]"
    by (auto simp: eval_nat_numeral length_Suc_conv)
  then show ?thesis using that by blast
qed

lemma checksum_segment:
  assumes "star \<notin> set pre" and "star \<notin> set d"
  shows "takeWhile (\<lambda>b. b \<noteq> star) (pre @ d @ comma # v6)
           = pre @ d @ comma # takeWhile (\<lambda>b. b \<noteq> star) v6"
proof -
  have "comma \<noteq> star" by (simp add: comma_def star_def)
  moreover have "takeWhile (\<lambda>b. b \<noteq> star) (xs @ ys) = xs @ takeWhile (\<lambda>b. b \<noteq> star) ys"
    if "star \<notin> set xs" for xs ys
    using that by (induction xs) auto
  ultimately show ?thesis using assms by simp
qed

lemma payload_flip_checksum:
  assumes acc: "NMEAMessage_init dec gint r = Inr f" and d: "data f = Some d"
    and i: "i < length d" and b: "b \<noteq> d ! i" and bc: "b \<noteq> comma" and bs: "b \<noteq> star"
    and nostar: "star \<notin> set (concat (take 6 (split_bytes comma r)))"
  shows "NMEAMessage_init dec gint (join_bytes comma ((split_bytes comma r)[5 := d[i := b]]))
           = Inl ValueError_checksum"
proof -
  define entries where "entries = split_bytes comma r"
  from d have "data f \<noteq> None" by simp
  with acc obtain rest self where
    first: "entries ! 0 = 0x21 # rest" and len: "length entries = 7" and
    u: "unpack (blank r) entries = Inr self" and fin: "finish dec gint self = Inr f"
    unfolding entries_def by (rule init_frame)
  from len obtain v0 v1 v2 v3 v4 v5 v6 where vs: "entries = [v0, v1, v2, v3, v4, v5, v6]"
    by (rule seven_entries)
  from first have v0: "v0 = 0x21 # rest" by (simp add: vs)
  from u obtain t m c j k where
    t: "decode_ascii (take 2 (drop 1 v0)) = Inr t" and
    m: "decode_ascii (drop 3 v0) = Inr m" and
    c: "py_int 10 v1 = Inr c" and
    j: "py_int 10 v2 = Inr j" and
    k: "py_int 16 (drop 2 v6) = Inr k" and
    self: "self = (blank r)\<lparr>talker := Some t, msg_type := Some m, count := Some c,
              index := Some j, seq_id := Some v3, channel := Some v4,
              data := Some v5, checksum := Some k\<rparr>"
    by (rule unpack_Inr) (simp add: vs)
  from fin obtain c0 where ck: "compute_checksum (raw self) = Inr c0"
    and "checksum self = Some c0" and "data f = data self"
    by (rule finish_Inr) simp
  with self d have sum_r: "compute_checksum r = Inr k" and v5: "v5 = d"
    by (simp_all add: blank_def)
  \<comment> \<open>the raw line and the changed line, entry by entry\<close>
  define pre where "pre = rest @ comma # v1 @ comma # v2 @ comma # v3 @ comma # v4 @ [comma]"
  have "join_bytes comma entries = r"
    unfolding entries_def by (rule join_split)
  then have r: "r = 0x21 # pre @ d @ comma # v6"
    by (simp add: vs v0 v5 pre_def)
  define r' where "r' = join_bytes comma (entries[5 := d[i := b]])"
  have r': "r' = 0x21 # pre @ d[i := b] @ comma # v6"
    by (simp add: r'_def vs v0 pre_def)
  \<comment> \<open>the changed line splits into the same entries, but for the payload\<close>
  have "\<forall>e \<in> set entries. comma \<notin> set e"
    unfolding entries_def by (auto dest: split_bytes_no_sep)
  moreover have "comma \<notin> set (d[i := b])"
  proof
    assume "comma \<in> set (d[i := b])"
    then have "comma \<in> insert b (set d)"
      using set_update_subset_insert [of d i b] by blast
    with bc have "comma \<in> set v5" by (simp add: v5)
    with \<open>\<forall>e \<in> set entries. comma \<notin> set e\<close> show False by (simp add: vs)
  qed
  ultimately have "\<forall>e \<in> set (entries[5 := d[i := b]]). comma \<notin> set e"
    by (simp add: vs)
  then have split': "split_bytes comma r' = entries[5 := d[i := b]]"
    unfolding r'_def by (intro split_join) (simp_all add: vs)
  \<comment> \<open>its checksum differs\<close>
  from nostar have "star \<notin> set v0 \<union> set v1 \<union> set v2 \<union> set v3 \<union> set v4 \<union> set v5"
    unfolding entries_def [symmetric] by (simp add: vs)
  moreover have "comma \<noteq> star" by (simp add: comma_def star_def)
  ultimately have ns_pre: "star \<notin> set pre" and ns_d: "star \<notin> set d"
    by (auto simp: pre_def v0 v5)
  have ns_d': "star \<notin> set (d[i := b])"
  proof
    assume "star \<in> set (d[i := b])"
    then have "star \<in> insert b (set d)"
      using set_update_subset_insert [of d i b] by blast
    with bs ns_d show False by simp
  qed
  define post where "post = comma # takeWhile (\<lambda>b. b \<noteq> star) v6"
  have seg: "takeWhile (\<lambda>b. b \<noteq> star) (drop 1 r) = pre @ d @ post"
    unfolding r post_def using checksum_segment [OF ns_pre ns_d] by simp
  have seg': "takeWhile (\<lambda>b. b \<noteq> star) (drop 1 r') = pre @ d[i := b] @ post"
    unfolding r' post_def using checksum_segment [OF ns_pre ns_d'] by simp
  from i have ne: "d \<noteq> []" "d[i := b] \<noteq> []"
    by auto
  from sum_r [unfolded compute_checksum_xor_fold seg] ne
  have k_eq: "k = uint (xor_fold (pre @ d @ post))"
    by simp
  have sum_r': "compute_checksum r' = Inr (uint (xor_fold (pre @ d[i := b] @ post)))"
    unfolding compute_checksum_xor_fold seg' using ne by simp
  from xor_fold_flip_differs [OF i b, of pre post]
  have differs: "uint (xor_fold (pre @ d[i := b] @ post)) \<noteq> k"
    by (auto simp: k_eq dest: word_uint_eqI)
  \<comment> \<open>so the constructor stops at the checksum check\<close>
  have u': "unpack (blank r') (entries[5 := d[i := b]]) =
      Inr ((blank r')\<lparr>talker := Some t, msg_type := Some m, count := Some c,
              index := Some j, seq_id := Some v3, channel := Some v4,
              data := Some (d[i := b]), checksum := Some k\<rparr>)"
    using t by (simp add: unpack_def vs m c j k)
  have "is_valid ((blank r')\<lparr>talker := Some t, msg_type := Some m, count := Some c,
              index := Some j, seq_id := Some v3, channel := Some v4,
              data := Some (d[i := b]), checksum := Some k\<rparr>) = Inr False"
    using differs by (simp add: is_valid_def blank_def sum_r')
  then have "finish dec gint ((blank r')\<lparr>talker := Some t, msg_type := Some m, count := Some c,
              index := Some j, seq_id := Some v3, channel := Some v4,
              data := Some (d[i := b]), checksum := Some k\<rparr>) = Inl ValueError_checksum"
    by (simp add: finish_def)
  moreover have "split_bytes comma r' ! 0 = 0x21 # rest" and "length (split_bytes comma r') = 7"
    by (simp_all add: split' vs v0)
  ultimately have "NMEAMessage_init dec gint r' = Inl ValueError_checksum"
    by (simp add: init_sentinel_seven split' u')
  then show ?thesis by (simp add: r'_def entries_def)
qed


lemma payload_comma_entries:
  assumes acc: "NMEAMessage_init dec gint r = Inr f" and d: "data f = Some d"
    and i: "i < length d"
  shows "NMEAMessage_init dec gint (join_bytes comma ((split_bytes comma r)[5 := d[i := comma]]))
           = Inl ValueError_entries"
proof -
  define entries where "entries = split_bytes comma r"
  from d have "data f \<noteq> None" by simp
  with acc obtain rest self where
    first: "entries ! 0 = 0x21 # rest" and len: "length entries = 7" and
    u: "unpack (blank r) entries = Inr self" and fin: "finish dec gint self = Inr f"
    unfolding entries_def by (rule init_frame)
  from len obtain v0 v1 v2 v3 v4 v5 v6 where vs: "entries = [v0, v1, v2, v3, v4, v5, v6]"
    by (rule seven_entries)
  from first have v0: "v0 = 0x21 # rest" by (simp add: vs)
  from u have "data self = Some v5"
    by (rule unpack_Inr) (simp add: vs)
  moreover from fin have "data f = data self"
    by (rule finish_Inr) simp
  ultimately have v5: "v5 = d" using d by simp
  define r' where "r' = join_bytes comma (entries[5 := d[i := comma]])"
  define eight where "eight = [v0, v1, v2, v3, v4, take i d, drop (Suc i) d, v6]"
  from i have "d[i := comma] = take i d @ comma # drop (Suc i) d"
    by (rule upd_conv_take_nth_drop)
  then have r': "r' = join_bytes comma eight"
    by (simp add: r'_def eight_def vs)
  have nc: "\<forall>e \<in> set entries. comma \<notin> set e"
    unfolding entries_def by (auto dest: split_bytes_no_sep)
  then have "comma \<notin> set d" by (simp add: vs v5)
  then have "comma \<notin> set (take i d)" and "comma \<notin> set (drop (Suc i) d)"
    by (auto dest: in_set_takeD in_set_dropD)
  with nc have "\<forall>e \<in> set eight. comma \<notin> set e"
    by (simp add: eight_def vs)
  then have "split_bytes comma r' = eight"
    unfolding r' by (intro split_join) (simp_all add: eight_def)
  then have "split_bytes comma r' ! 0 = 0x21 # rest" and "length (split_bytes comma r') \<noteq> 7"
    by (simp_all add: eight_def v0)
  then have "NMEAMessage_init dec gint r' = Inl ValueError_entries"
    by (simp add: NMEAMessage_init_def)
  then show ?thesis by (simp add: r'_def entries_def)
qed

text \<open>
  C3, as amended: take a sentence that parses to a frame and has no \<open>*\<close> in its first
  six entries, and replace one byte of the payload entry by a different byte other than
  \<open>*\<close>. The constructor rejects the new sentence: with the checksum error of line 73, or,
  when the new byte is a comma, with the error of line 43 for the number of entries.
\<close>

theorem payload_flip_rejected:
  assumes "NMEAMessage_init dec gint r = Inr f" and "data f = Some d"
    and "i < length d" and "b \<noteq> d ! i" and "b \<noteq> star"
    and "star \<notin> set (concat (take 6 (split_bytes comma r)))"
  shows "NMEAMessage_init dec gint (join_bytes comma ((split_bytes comma r)[5 := d[i := b]]))
           = Inl (if b = comma then ValueError_entries else ValueError_checksum)"
proof (cases "b = comma")
  case True
  with payload_comma_entries [OF assms(1-3)] show ?thesis by simp
next
  case False
  with payload_flip_checksum [OF assms(1-4) _ assms(5,6)] show ?thesis by simp
qed

text \<open>
  C3 as stated fails when a \<open>*\<close> comes before the payload: the checksum then covers only
  what precedes that \<open>*\<close>. The first sentence below is accepted; replacing the payload
  byte \<open>1\<close> by \<open>2\<close> gives the second sentence, which is accepted as well.
\<close>

theorem payload_flip_accepted:
  "NMEAMessage_init decode_into_bit_array get_int (bytes_of ''!AIVDM,1,1,,*,15,0*57'') =
     Inr \<lparr>ais_id = Some 1, raw = bytes_of ''!AIVDM,1,1,,*,15,0*57'',
          talker = Some ''AI'', msg_type = Some ''VDM'', count = Some 1, index = Some 1,
          seq_id = Some [], channel = Some (bytes_of ''*''), data = Some (bytes_of ''15''),
          checksum = Some 87,
          bit_array = Some [False, False, False, False, False, True,
                            False, False, False, True, False, True]\<rparr> \<and>
   join_bytes comma ((split_bytes comma (bytes_of ''!AIVDM,1,1,,*,15,0*57''))
       [5 := (bytes_of ''15'')[0 := 0x32]]) = bytes_of ''!AIVDM,1,1,,*,25,0*57'' \<and>
   NMEAMessage_init decode_into_bit_array get_int (bytes_of ''!AIVDM,1,1,,*,25,0*57'') =
     Inr \<lparr>ais_id = Some 2, raw = bytes_of ''!AIVDM,1,1,,*,25,0*57'',
          talker = Some ''AI'', msg_type = Some ''VDM'', count = Some 1, index = Some 1,
          seq_id = Some [], channel = Some (bytes_of ''*''), data = Some (bytes_of ''25''),
          checksum = Some 87,
          bit_array = Some [False, False, False, False, True, False,
                            False, False, False, True, False, True]\<rparr>"
  by (simp add: eval_defs)

text \<open>
  Replacing a payload byte by \<open>*\<close> cuts the checksummed range short: here \<open>h\<close> becomes
  \<open>*\<close>, and the computed checksum of the changed sentence still equals the declared 11.
\<close>

lemma payload_star_keeps_checksum:
  "NMEAMessage_init decode_into_bit_array get_int (bytes_of ''!AIVDM,1,1,,A,1ht,0*0B'') =
     Inr \<lparr>ais_id = Some 1, raw = bytes_of ''!AIVDM,1,1,,A,1ht,0*0B'',
          talker = Some ''AI'', msg_type = Some ''VDM'', count = Some 1, index = Some 1,
          seq_id = Some [], channel = Some (bytes_of ''A''), data = Some (bytes_of ''1ht''),
          checksum = Some 11,
          bit_array = Some [False, False, False, False, False, True,
                            True, True, False, False, False, False,
                            True, True, True, True, False, False]\<rparr> \<and>
   compute_checksum (bytes_of ''!AIVDM,1,1,,A,1*t,0*0B'') = Inr 11 \<and>
   unpack (blank (bytes_of ''!AIVDM,1,1,,A,1*t,0*0B''))
       (split_bytes comma (bytes_of ''!AIVDM,1,1,,A,1*t,0*0B'')) =
     Inr \<lparr>ais_id = None, raw = bytes_of ''!AIVDM,1,1,,A,1*t,0*0B'',
          talker = Some ''AI'', msg_type = Some ''VDM'', count = Some 1, index = Some 1,
          seq_id = Some [], channel = Some (bytes_of ''A''), data = Some (bytes_of ''1*t''),
          checksum = Some 11, bit_array = None\<rparr>"
  by (simp add: eval_defs)

theorem payload_flip_rejected_witness:
  "NMEAMessage_init decode_into_bit_array get_int (bytes_of ''!AIVDM,1,1,,A,15,0*22'') =
     Inr \<lparr>ais_id = Some 1, raw = bytes_of ''!AIVDM,1,1,,A,15,0*22'',
          talker = Some ''AI'', msg_type = Some ''VDM'', count = Some 1, index = Some 1,
          seq_id = Some [], channel = Some (bytes_of ''A''), data = Some (bytes_of ''15''),
          checksum = Some 34,
          bit_array = Some [False, False, False, False, False, True,
                            False, False, False, True, False, True]\<rparr> \<and>
   star \<notin> set (concat (take 6 (split_bytes comma (bytes_of ''!AIVDM,1,1,,A,15,0*22'')))) \<and>
   join_bytes comma ((split_bytes comma (bytes_of ''!AIVDM,1,1,,A,15,0*22''))
       [5 := (bytes_of ''15'')[0 := 0x32]]) = bytes_of ''!AIVDM,1,1,,A,25,0*22'' \<and>
   NMEAMessage_init decode_into_bit_array get_int (bytes_of ''!AIVDM,1,1,,A,25,0*22'') =
     Inl ValueError_checksum \<and>
   join_bytes comma ((split_bytes comma (bytes_of ''!AIVDM,1,1,,A,15,0*22''))
       [5 := (bytes_of ''15'')[1 := comma]]) = bytes_of ''!AIVDM,1,1,,A,1,,0*22'' \<and>
   NMEAMessage_init decode_into_bit_array get_int (bytes_of ''!AIVDM,1,1,,A,1,,0*22'') =
     Inl ValueError_entries"
proof -
  let ?r = "bytes_of ''!AIVDM,1,1,,A,15,0*22''"
  let ?f = "\<lparr>ais_id = Some 1, raw = ?r,
          talker = Some ''AI'', msg_type = Some ''VDM'', count = Some 1, index = Some 1,
          seq_id = Some [], channel = Some (bytes_of ''A''), data = Some (bytes_of ''15''),
          checksum = Some 34,
          bit_array = Some [False, False, False, False, False, True,
                            False, False, False, True, False, True]\<rparr>"
  have acc: "NMEAMessage_init decode_into_bit_array get_int ?r = Inr ?f"
    by (simp add: eval_defs)
  have d: "data ?f = Some (bytes_of ''15'')" by simp
  have i0: "0 < length (bytes_of ''15'')" and i1: "1 < length (bytes_of ''15'')"
    by (simp_all add: bytes_of_def)
  have b0: "(0x32 :: byte) \<noteq> bytes_of ''15'' ! 0" "(0x32 :: byte) \<noteq> star"
    and b1: "comma \<noteq> bytes_of ''15'' ! 1" "comma \<noteq> star"
    by (simp_all add: bytes_of_def star_def comma_def)
  have ns: "star \<notin> set (concat (take 6 (split_bytes comma ?r)))"
    by (simp add: bytes_of_def comma_def star_def)
  have j0: "join_bytes comma ((split_bytes comma ?r)[5 := (bytes_of ''15'')[0 := 0x32]])
      = bytes_of ''!AIVDM,1,1,,A,25,0*22''"
    by (simp add: bytes_of_def comma_def)
  have j1: "join_bytes comma ((split_bytes comma ?r)[5 := (bytes_of ''15'')[1 := comma]])
      = bytes_of ''!AIVDM,1,1,,A,1,,0*22''"
    by (simp add: bytes_of_def comma_def)
  have c: "(0x32 :: byte) \<noteq> comma" by (simp add: comma_def)
  from payload_flip_rejected [OF acc d i0 b0 ns] j0 c
  have "NMEAMessage_init decode_into_bit_array get_int (bytes_of ''!AIVDM,1,1,,A,25,0*22'')
      = Inl ValueError_checksum"
    by simp
  moreover from payload_flip_rejected [OF acc d i1 b1 ns] j1
  have "NMEAMessage_init decode_into_bit_array get_int (bytes_of ''!AIVDM,1,1,,A,1,,0*22'')
      = Inl ValueError_entries"
    by simp
  ultimately show ?thesis using acc ns j0 j1 by simp
qed

section \<open>Assembling fragments\<close>

lemma assemble_loop_eq:
  "assemble_loop h ms r d b =
     (if \<forall>m \<in> set ms. data (h m) \<noteq> None \<and> bit_array (h m) \<noteq> None
      then Inr (r @ concat (map (\<lambda>m. raw (h m)) ms),
                d @ concat (map (\<lambda>m. the (data (h m))) ms),
                b @ concat (map (\<lambda>m. the (bit_array (h m))) ms))
      else Inl TypeError)"
proof (induction ms arbitrary: r d b)
  case Nil
  show ?case by simp
next
  case (Cons m ms)
  show ?case
  proof (cases "data (h m)")
    case None
    then show ?thesis by simp
  next
    case d: (Some md)
    show ?thesis
    proof (cases "bit_array (h m)")
      case None
      with d show ?thesis by simp
    next
      case (Some mb)
      with d Cons show ?thesis by simp
    qed
  qed
qed

text \<open>
  C6: for a non-empty sequence of frames that each have a payload and a bit stream, the
  call succeeds and returns the first frame; its raw bytes, payload and bit stream are the
  concatenations, in the order given, of those of the input frames as they were before the
  call, and its talker, message type, fragment count and index, sequence id and channel
  are those of the first frame.
\<close>

theorem assemble_concatenates_in_order:
  assumes "messages \<noteq> []"
    and "\<forall>m \<in> set messages. data (h m) \<noteq> None \<and> bit_array (h m) \<noteq> None"
  shows "\<exists>h'. assemble_from_iterable h messages = Inr (h', hd messages) \<and>
           raw (h' (hd messages)) = concat (map (\<lambda>m. raw (h m)) messages) \<and>
           data (h' (hd messages)) = Some (concat (map (\<lambda>m. the (data (h m))) messages)) \<and>
           bit_array (h' (hd messages))
             = Some (concat (map (\<lambda>m. the (bit_array (h m))) messages)) \<and>
           talker (h' (hd messages)) = talker (h (hd messages)) \<and>
           msg_type (h' (hd messages)) = msg_type (h (hd messages)) \<and>
           count (h' (hd messages)) = count (h (hd messages)) \<and>
           index (h' (hd messages)) = index (h (hd messages)) \<and>
           seq_id (h' (hd messages)) = seq_id (h (hd messages)) \<and>
           channel (h' (hd messages)) = channel (h (hd messages))"
proof -
  from assms(1) obtain m0 ms where ms: "messages = m0 # ms" by (cases messages) auto
  from assms(2) have loop: "assemble_loop h messages [] [] [] =
      Inr (concat (map (\<lambda>m. raw (h m)) messages),
           concat (map (\<lambda>m. the (data (h m))) messages),
           concat (map (\<lambda>m. the (bit_array (h m))) messages))"
    by (simp add: assemble_loop_eq)
  show ?thesis
    unfolding assemble_from_iterable_def loop
    by (simp add: ms)
qed

text \<open>
  C1, as amended: the result is the first input frame itself, not a new object. Its
  \<open>raw\<close>, \<open>data\<close> and \<open>bit_array\<close> are overwritten with the concatenations and its other
  slots kept; every object other than the first input frame is left as it was.
\<close>

theorem assemble_overwrites_first:
  assumes "assemble_from_iterable h messages = Inr (h', res)"
  shows "messages \<noteq> [] \<and> res = hd messages \<and>
         (\<forall>a. a \<noteq> hd messages \<longrightarrow> h' a = h a) \<and>
         h' (hd messages) =
           (h (hd messages))
             \<lparr>raw := concat (map (\<lambda>m. raw (h m)) messages),
              data := Some (concat (map (\<lambda>m. the (data (h m))) messages)),
              bit_array := Some (concat (map (\<lambda>m. the (bit_array (h m))) messages))\<rparr>"
proof -
  from assms obtain x where loop: "assemble_loop h messages [] [] [] = Inr x"
    and rest: "(case x of (r, d, b) \<Rightarrow>
       (case messages of
          [] \<Rightarrow> Inl IndexError
        | m0 # _ \<Rightarrow>
            Inr (h(m0 := (h m0)\<lparr>raw := r, data := Some d, bit_array := Some b\<rparr>), m0)))
       = Inr (h', res)"
    unfolding assemble_from_iterable_def by (rule bind_err_Inr)
  from loop have x: "x = (concat (map (\<lambda>m. raw (h m)) messages),
           concat (map (\<lambda>m. the (data (h m))) messages),
           concat (map (\<lambda>m. the (bit_array (h m))) messages))"
    by (simp add: assemble_loop_eq split: if_splits)
  from rest obtain m0 ms where ms: "messages = m0 # ms"
    by (cases messages) (auto simp: x)
  from rest show ?thesis
    unfolding x ms by auto
qed


lemmas store_defs = two_fragments_def store_of_def fragment1_def fragment2_def

lemma fragments_parsed:
  "NMEAMessage_init decode_into_bit_array get_int fragment1 = Inr (two_fragments 0)"
  "NMEAMessage_init decode_into_bit_array get_int fragment2 = Inr (two_fragments 1)"
  by (simp_all add: store_defs eval_defs)

lemma fragments_fields:
  "raw (two_fragments 0) = fragment1"
  "raw (two_fragments 1) = fragment2"
  "data (two_fragments 0) = Some (bytes_of ''55P5TL01VIaAL@7WKO@mBplU@<PDhh000000001S;AJ::4A80?4i@E53'')"
  "data (two_fragments 1) = Some (bytes_of ''1@0000000000000'')"
  "bit_array (two_fragments 0) \<noteq> None"
  "bit_array (two_fragments 1) \<noteq> None"
  "count (two_fragments 0) = Some 2"
  "index (two_fragments 0) = Some 1"
  by (simp_all add: store_defs eval_defs)

text \<open>
  C1 as stated fails on the two fragments of a real two-part message: both parse, the
  call returns reference 0, which is the first input, and after the call the \<open>raw\<close> of
  that input is no longer the first sentence but both sentences.
\<close>

theorem assemble_mutates_first_input:
  "NMEAMessage_init decode_into_bit_array get_int fragment1 = Inr (two_fragments 0) \<and>
   NMEAMessage_init decode_into_bit_array get_int fragment2 = Inr (two_fragments 1) \<and>
   \<not> isl (assemble_from_iterable two_fragments [0, 1]) \<and>
   snd (projr (assemble_from_iterable two_fragments [0, 1])) = 0 \<and>
   raw (two_fragments 0) = fragment1 \<and>
   raw (fst (projr (assemble_from_iterable two_fragments [0, 1])) 0) = fragment1 @ fragment2 \<and>
   fragment1 @ fragment2 \<noteq> fragment1"
proof -
  have loop: "assemble_from_iterable two_fragments [0, 1] =
     Inr (two_fragments(0 := (two_fragments 0)
            \<lparr>raw := fragment1 @ fragment2,
             data := Some (the (data (two_fragments 0)) @ the (data (two_fragments 1))),
             bit_array := Some (the (bit_array (two_fragments 0)) @ the (bit_array (two_fragments 1)))\<rparr>), 0)"
    using fragments_fields by (auto simp: assemble_from_iterable_def)
  have "fragment2 \<noteq> []" by (simp add: fragment2_def bytes_of_def)
  with loop fragments_parsed fragments_fields show ?thesis by simp
qed


theorem assemble_concatenates_in_order_witness:
  "[0, 1 :: ref] \<noteq> [] \<and>
   data (two_fragments 0) \<noteq> None \<and> bit_array (two_fragments 0) \<noteq> None \<and>
   data (two_fragments 1) \<noteq> None \<and> bit_array (two_fragments 1) \<noteq> None \<and>
   snd (projr (assemble_from_iterable two_fragments [0, 1])) = 0 \<and>
   raw (fst (projr (assemble_from_iterable two_fragments [0, 1])) 0) = fragment1 @ fragment2 \<and>
   data (fst (projr (assemble_from_iterable two_fragments [0, 1])) 0) =
     Some (bytes_of ''55P5TL01VIaAL@7WKO@mBplU@<PDhh000000001S;AJ::4A80?4i@E53'' @
           bytes_of ''1@0000000000000'') \<and>
   count (fst (projr (assemble_from_iterable two_fragments [0, 1])) 0) = Some 2 \<and>
   index (fst (projr (assemble_from_iterable two_fragments [0, 1])) 0) = Some 1"
proof -
  have ne: "[0, 1 :: ref] \<noteq> []" by simp
  have ok: "\<forall>m \<in> set [0, 1 :: ref].
      data (two_fragments m) \<noteq> None \<and> bit_array (two_fragments m) \<noteq> None"
    using fragments_fields by simp
  from assemble_concatenates_in_order [OF ne ok] obtain h' where
    "assemble_from_iterable two_fragments [0, 1] = Inr (h', 0)"
    "raw (h' 0) = raw (two_fragments 0) @ raw (two_fragments 1)"
    "data (h' 0) = Some (the (data (two_fragments 0)) @ the (data (two_fragments 1)))"
    "count (h' 0) = count (two_fragments 0)"
    "index (h' 0) = index (two_fragments 0)"
    by auto
  with fragments_fields show ?thesis by simp
qed

theorem assemble_overwrites_first_witness:
  "assemble_from_iterable two_fragments [0, 1] =
     Inr (fst (projr (assemble_from_iterable two_fragments [0, 1])), 0) \<and>
   fst (projr (assemble_from_iterable two_fragments [0, 1])) 1 = two_fragments 1 \<and>
   raw (fst (projr (assemble_from_iterable two_fragments [0, 1])) 0) = fragment1 @ fragment2"
proof -
  have run: "assemble_from_iterable two_fragments [0, 1] =
     Inr (fst (projr (assemble_from_iterable two_fragments [0, 1])), 0)"
    using fragments_fields by (auto simp: assemble_from_iterable_def)
  from assemble_overwrites_first [OF run] fragments_fields run show ?thesis
    by simp
qed

end
